theory Spec2Isabelle
  imports Complex_Main "HOL-Library.Sublist"
begin

section \<open>Cache Cleaner: a shallow embedding of \<^verbatim>\<open>cache.py\<close>\<close>

text \<open>
  The development follows the source file top down: the pattern catalogue
  (\<^verbatim>\<open>CACHE_TYPES\<close>), the size probe (\<^verbatim>\<open>get_size\<close>), the tree scanner
  (\<^verbatim>\<open>scan_dir\<close>), the global cache locator (\<^verbatim>\<open>scan_global\<close>), the
  history store (\<^verbatim>\<open>load_history\<close>, \<^verbatim>\<open>save_history\<close>,
  \<^verbatim>\<open>add_session\<close>), the cleaner (\<^verbatim>\<open>clean_matches\<close>) and the parsing of
  the minimum size in the \<^verbatim>\<open>scan\<close> command.

  Python strings are \<^typ>\<open>string\<close>, Python integers are \<^typ>\<open>int\<close>, a
  \<^verbatim>\<open>pathlib.Path\<close> is the list of its \<^verbatim>\<open>parts\<close>, and an exception that leaves
  a function is a value of type \<open>error\<close> on the left of a sum.
\<close>

subsection \<open>Exceptions\<close>

datatype error =
    PermissionError
  | NotADirectoryError
  | RuntimeError
  | AttributeError
  | ValueError
  | OverflowError

subsection \<open>Strings\<close>

text \<open>\<^verbatim>\<open>s.startswith(p)\<close> and \<^verbatim>\<open>s.endswith(p)\<close> on Python strings.\<close>

definition startswith :: "string \<Rightarrow> string \<Rightarrow> bool" where
  "startswith s p = (take (length p) s = p)"

definition endswith :: "string \<Rightarrow> string \<Rightarrow> bool" where
  "endswith s p = (length p \<le> length s \<and> drop (length s - length p) s = p)"

subsection \<open>The pattern catalogue\<close>

text \<open>
  \<^verbatim>\<open>CACHE_TYPES\<close> is a dictionary of dictionaries.  Python dictionaries
  iterate in insertion order, which the loops of \<^verbatim>\<open>scan_dir\<close> rely on, so
  both levels are association lists in the order of the source text.  A cache
  type is its name, its patterns and its description.
\<close>

type_synonym cache_type = "string \<times> string list \<times> string"
type_synonym catalogue = "(string \<times> cache_type list) list"

definition CACHE_TYPES :: catalogue where
  "CACHE_TYPES =
    [(''node'',
        [(''node_modules'', [''node_modules''], ''Node.js dependencies''),
         (''node_cache'', [''.cache'', ''.parcel-cache'', ''.next/cache'', ''.nuxt'', ''.turbo''],
            ''Build caches'')]),
     (''python'',
        [(''pycache'', [''__pycache__'', ''*.pyc''], ''Python bytecode''),
         (''venv'', [''.venv'', ''venv'', ''.env'', ''env''], ''Virtual environments''),
         (''pytest'', [''.pytest_cache'', ''.mypy_cache'', ''.ruff_cache'', ''.tox''],
            ''Test/lint caches''),
         (''eggs'', [''*.egg-info'', ''.eggs'', ''dist'', ''build''], ''Build artifacts'')]),
     (''rust'',
        [(''target'', [''target''], ''Rust build output'')]),
     (''go'',
        [(''go_build'', [''go-build''], ''Go build cache'')]),
     (''java'',
        [(''gradle'', [''.gradle'', ''build''], ''Gradle cache'')]),
     (''dotnet'',
        [(''dotnet'', [''bin'', ''obj''], ''.NET build output'')]),
     (''misc'',
        [(''coverage'', [''coverage'', ''.coverage'', ''htmlcov'', ''.nyc_output''],
            ''Coverage reports''),
         (''logs'', [''*.log'', ''logs''], ''Log files''),
         (''temp'', [''tmp'', ''temp'', ''.tmp''], ''Temp files''),
         (''os'', [''.DS_Store'', ''Thumbs.db''], ''OS files'')])]"

subsection \<open>Matching an entry name (the three inner loops of \<^verbatim>\<open>scan_dir\<close>)\<close>

text \<open>
  The body of the innermost loop sets \<^verbatim>\<open>matched\<close> for one pattern:
  \<^verbatim>\<open>
  if pattern.startswith("*"):
      if entry.name.endswith(pattern[1:]): matched = True
  elif entry.name == pattern: matched = True
  \<close>
\<close>

definition pattern_hit :: "string \<Rightarrow> string \<Rightarrow> bool" where
  "pattern_hit nm pattern =
     (if startswith pattern ''*'' then endswith nm (drop 1 pattern) else nm = pattern)"

text \<open>
  \<^verbatim>\<open>for pattern in patterns\<close>: the loop leaves at the first pattern that
  sets \<^verbatim>\<open>matched\<close>; it ends with \<^verbatim>\<open>matched\<close> unset when no pattern does.
\<close>

fun match_patterns :: "string \<Rightarrow> string list \<Rightarrow> bool" where
  "match_patterns nm [] = False"
| "match_patterns nm (pattern # patterns) =
     (if pattern_hit nm pattern then True else match_patterns nm patterns)"

text \<open>
  \<^verbatim>\<open>for type_name, (patterns, _) in types.items()\<close>: leaves at the first
  type one of whose patterns matched, and yields its name.
\<close>

fun match_types :: "string \<Rightarrow> cache_type list \<Rightarrow> string option" where
  "match_types nm [] = None"
| "match_types nm ((type_name, patterns, descr) # types) =
     (if match_patterns nm patterns then Some type_name else match_types nm types)"

text \<open>
  \<^verbatim>\<open>if categories and cat not in categories: continue\<close>.  The filter is
  \<^verbatim>\<open>None\<close> or a list; both \<^verbatim>\<open>None\<close> and the empty list are falsy and
  switch the filter off.
\<close>

definition cat_skipped :: "string list option \<Rightarrow> string \<Rightarrow> bool" where
  "cat_skipped categories cat =
     (case categories of
        None \<Rightarrow> False
      | Some cs \<Rightarrow> cs \<noteq> [] \<and> cat \<notin> set cs)"

text \<open>
  \<^verbatim>\<open>for cat, types in CACHE_TYPES.items()\<close>: leaves at the first category
  that is not filtered out and has a matching type.  The result is the pair
  \<^verbatim>\<open>(cat, type_name)\<close> the source puts into the \<^verbatim>\<open>Match\<close>, or
  \<^verbatim>\<open>None\<close> when \<^verbatim>\<open>matched\<close> stays \<^verbatim>\<open>False\<close>.
\<close>

fun match_cats :: "string list option \<Rightarrow> string \<Rightarrow> catalogue \<Rightarrow> (string \<times> string) option" where
  "match_cats categories nm [] = None"
| "match_cats categories nm ((cat, types) # rest) =
     (if cat_skipped categories cat then match_cats categories nm rest
      else (case match_types nm types of
              Some type_name \<Rightarrow> Some (cat, type_name)
            | None \<Rightarrow> match_cats categories nm rest))"

definition match_name :: "string list option \<Rightarrow> string \<Rightarrow> (string \<times> string) option" where
  "match_name categories nm = match_cats categories nm CACHE_TYPES"

text \<open>
  The specification of the pattern catalogue, in its own words: the rows
  \<open>(category, type, patterns)\<close> in registration order, restricted to the
  allowed categories; the first row whose pattern list contains a matching
  pattern; a pattern matches when it has no leading wildcard and equals the
  name, or starts with the wildcard and the name ends with the remainder.
\<close>

definition spec_pattern_matches :: "string \<Rightarrow> string \<Rightarrow> bool" where
  "spec_pattern_matches nm pattern =
     (case pattern of
        c # remainder \<Rightarrow> if c = CHR ''*'' then suffix remainder nm else nm = pattern
      | [] \<Rightarrow> nm = pattern)"

definition spec_rows :: "catalogue \<Rightarrow> (string \<times> string \<times> string list) list" where
  "spec_rows cat = concat (map (\<lambda>(c, types). map (\<lambda>(t, ps, d). (c, t, ps)) types) cat)"

definition spec_first_match ::
  "string list option \<Rightarrow> string \<Rightarrow> catalogue \<Rightarrow> (string \<times> string) option" where
  "spec_first_match categories nm cat =
     map_option (\<lambda>(c, t, ps). (c, t))
       (find (\<lambda>(c, t, ps). list_ex (spec_pattern_matches nm) ps)
          (filter (\<lambda>(c, t, ps). \<not> cat_skipped categories c) (spec_rows cat)))"

subsection \<open>The filesystem as the program observes it\<close>

text \<open>
  The program reads the filesystem through \<^verbatim>\<open>exists\<close>, \<^verbatim>\<open>is_file\<close>,
  \<^verbatim>\<open>is_dir\<close>, \<^verbatim>\<open>iterdir\<close>, \<^verbatim>\<open>rglob\<close>, \<^verbatim>\<open>stat\<close> and
  \<^verbatim>\<open>resolve\<close>.  All of them follow symbolic links, so what they show is a
  finite tree of named entries: a symbolic link to a directory is seen as a
  directory with the target's content, under the link's own name.  Every
  entry records \<open>canonical\<close>, the canonical path that \<^verbatim>\<open>Path.resolve()\<close>
  returns for it; entries reached through a link share it with the target.

  \<^item> \<open>File\<close>: a regular file (or a link to one) with its \<^verbatim>\<open>st_size\<close>;
  \<^item> \<open>Dir\<close>: a directory; \<open>link\<close> tells that the entry itself is a symbolic
    link, \<open>readable\<close> that listing it succeeds (otherwise
    \<^verbatim>\<open>PermissionError\<close>), \<open>children\<close> is the listing in the order of
    \<^verbatim>\<open>iterdir\<close>;
  \<^item> \<open>Special\<close>: exists, but is neither a file nor a directory (socket, fifo,
    device);
  \<^item> \<open>Broken\<close>: a dangling symbolic link, for which \<^verbatim>\<open>exists()\<close> is false.
\<close>

type_synonym path = "string list"

datatype entry =
    File (name: string) (canonical: path) (st_size: int)
  | Dir (name: string) (canonical: path) (link: bool) (readable: bool) (children: "entry list")
  | Special (name: string) (canonical: path)
  | Broken (name: string) (canonical: path)

fun exists :: "entry \<Rightarrow> bool" where
  "exists (Broken n r) = False"
| "exists e = True"

fun is_file :: "entry \<Rightarrow> bool" where
  "is_file (File n r s) = True"
| "is_file e = False"

fun is_dir :: "entry \<Rightarrow> bool" where
  "is_dir (Dir n r l rd cs) = True"
| "is_dir e = False"

text \<open>\<^verbatim>\<open>list(path.iterdir())\<close>.\<close>

fun iterdir :: "entry \<Rightarrow> error + entry list" where
  "iterdir (Dir n r l rd cs) = (if rd then Inr cs else Inl PermissionError)"
| "iterdir e = Inl NotADirectoryError"

text \<open>
  A path is the list of its \<^verbatim>\<open>parts\<close>; an absolute path starts with the
  anchor (\<^verbatim>\<open>"/"\<close>), which \<^verbatim>\<open>len(path.parts)\<close> counts.  \<^verbatim>\<open>path.name\<close> is
  the last part, and the empty string for the anchor alone.
\<close>

definition path_name :: "path \<Rightarrow> string" where
  "path_name p = (if length p \<le> 1 then [] else last p)"

text \<open>
  The filesystem is the entry of its root directory.  \<open>lookup\<close> walks down
  from an entry along names, \<open>lookup_path\<close> from the root along the parts
  after the anchor.
\<close>

fun lookup :: "entry \<Rightarrow> string list \<Rightarrow> entry option" where
  "lookup e [] = Some e"
| "lookup e (n # ns) =
     (case e of
        Dir dn r l rd cs \<Rightarrow>
          (case find (\<lambda>c. name c = n) cs of
             Some c \<Rightarrow> lookup c ns
           | None \<Rightarrow> None)
      | _ \<Rightarrow> None)"

definition lookup_path :: "entry \<Rightarrow> path \<Rightarrow> entry option" where
  "lookup_path fs p = (case p of [] \<Rightarrow> None | anchor # ns \<Rightarrow> lookup fs ns)"

text \<open>
  \<^verbatim>\<open>path.resolve()\<close>, for an absolute path: the canonical path of the entry,
  and the path itself when nothing is there.
\<close>

definition resolve :: "entry \<Rightarrow> path \<Rightarrow> path" where
  "resolve fs p = (case lookup_path fs p of Some e \<Rightarrow> canonical e | None \<Rightarrow> p)"

subsection \<open>\<^verbatim>\<open>get_size\<close>\<close>

text \<open>
  \<^verbatim>\<open>path.rglob("*")\<close> yields every entry below a directory.  It does not
  descend into a symbolic link to a directory and it leaves out a directory
  it cannot list; \<^verbatim>\<open>f.is_file()\<close> and \<^verbatim>\<open>f.stat()\<close> follow links.
  \<open>rglob_total\<close> is what one entry below the probed directory adds to
  \<^verbatim>\<open>total\<close>.
\<close>

fun rglob_total :: "entry \<Rightarrow> int" where
  "rglob_total (File n r s) = s"
| "rglob_total (Dir n r l rd cs) =
     (if l \<or> \<not> rd then 0 else sum_list (map rglob_total cs))"
| "rglob_total (Special n r) = 0"
| "rglob_total (Broken n r) = 0"

fun get_size :: "entry \<Rightarrow> int" where
  "get_size (Broken n r) = 0"
| "get_size (File n r s) = s"
| "get_size (Dir n r l rd cs) = (if rd then sum_list (map rglob_total cs) else 0)"
| "get_size (Special n r) = 0"

subsection \<open>\<^verbatim>\<open>Match\<close> and \<^verbatim>\<open>scan_dir\<close>\<close>

record Match =
  path :: path
  category :: string
  cache_type :: string
  size_bytes :: int

text \<open>The two mutable variables the nested function \<^verbatim>\<open>scan\<close> closes over.\<close>

record scan_state =
  seen :: "path set"
  matches :: "Match list"

definition skip_dirs :: "string set" where
  "skip_dirs = {''.git'', ''.hg'', ''.svn'', ''$RECYCLE.BIN'', ''Windows'', ''Program Files''}"

text \<open>
  \<^verbatim>\<open>max_depth and len(path.parts) - base_depth > max_depth\<close>: \<^verbatim>\<open>None\<close> and
  \<^verbatim>\<open>0\<close> are falsy.
\<close>

definition too_deep :: "int option \<Rightarrow> nat \<Rightarrow> path \<Rightarrow> bool" where
  "too_deep max_depth base_depth p =
     (case max_depth of
        None \<Rightarrow> False
      | Some d \<Rightarrow> d \<noteq> 0 \<and> int (length p) - int base_depth > d)"

text \<open>
  \<^verbatim>\<open>sorted(matches, key=lambda m: m.size, reverse=True)\<close>: a stable sort,
  descending by size.
\<close>

definition sorted_by_size :: "Match list \<Rightarrow> Match list" where
  "sorted_by_size ms = sort_key (\<lambda>m. - size_bytes m) ms"

text \<open>
  The nested function \<^verbatim>\<open>scan(path)\<close> and the loop over the entries of a
  directory.  \<open>p\<close> is the path and \<open>e\<close> what the filesystem has at that path;
  the entry of a child \<open>c\<close> is \<open>p @ [name c]\<close>, which is \<^verbatim>\<open>path / name\<close> as
  \<^verbatim>\<open>iterdir\<close> builds it.  An exception other than the
  \<^verbatim>\<open>PermissionError\<close> of \<^verbatim>\<open>iterdir\<close> leaves the scan.
\<close>

fun scan ::
    "string list option \<Rightarrow> int option \<Rightarrow> int \<Rightarrow> nat \<Rightarrow> path \<Rightarrow> entry \<Rightarrow> scan_state
       \<Rightarrow> error + scan_state"
  and scan_entries ::
    "string list option \<Rightarrow> int option \<Rightarrow> int \<Rightarrow> nat \<Rightarrow> path \<Rightarrow> entry list \<Rightarrow> scan_state
       \<Rightarrow> error + scan_state"
where
  "scan categories max_depth min_size base_depth p e st =
     (if p \<in> seen st \<or> \<not> exists e then Inr st
      else if path_name p \<in> skip_dirs then Inr st
      else if too_deep max_depth base_depth p then Inr st
      else (case e of
              Dir n r l rd cs \<Rightarrow>
                if rd then scan_entries categories max_depth min_size base_depth p cs st
                else Inr st
            | _ \<Rightarrow> Inl NotADirectoryError))"
| "scan_entries categories max_depth min_size base_depth p [] st = Inr st"
| "scan_entries categories max_depth min_size base_depth p (c # cs) st =
     (let entry = p @ [name c] in
      if entry \<in> seen st then scan_entries categories max_depth min_size base_depth p cs st
      else (case match_name categories (name c) of
              Some (cat, type_name) \<Rightarrow>
                (let size = get_size c in
                 if size \<ge> min_size
                 then scan_entries categories max_depth min_size base_depth p cs
                        (st\<lparr>seen := insert entry (seen st),
                            matches := matches st @
                              [\<lparr>path = entry, category = cat, cache_type = type_name,
                                size_bytes = size\<rparr>]\<rparr>)
                 else scan_entries categories max_depth min_size base_depth p cs st)
            | None \<Rightarrow>
                if is_dir c
                then (case scan categories max_depth min_size base_depth entry c st of
                        Inl err \<Rightarrow> Inl err
                      | Inr st' \<Rightarrow> scan_entries categories max_depth min_size base_depth p cs st')
                else scan_entries categories max_depth min_size base_depth p cs st))"

text \<open>
  \<^verbatim>\<open>scan_dir\<close>.  The root is resolved first; \<^verbatim>\<open>scan(root)\<close> then asks
  the filesystem about the resolved path.
\<close>

definition scan_dir ::
  "entry \<Rightarrow> path \<Rightarrow> string list option \<Rightarrow> int option \<Rightarrow> int \<Rightarrow> error + Match list" where
  "scan_dir fs root_dir categories max_depth min_size =
     (let root' = resolve fs root_dir;
          base_depth = length root';
          st0 = \<lparr>seen = {}, matches = []\<rparr>
      in case lookup_path fs root' of
           None \<Rightarrow> Inr (sorted_by_size (matches st0))
         | Some e \<Rightarrow>
             (case scan categories max_depth min_size base_depth root' e st0 of
                Inl err \<Rightarrow> Inl err
              | Inr st \<Rightarrow> Inr (sorted_by_size (matches st))))"

text \<open>The default of the parameter \<^verbatim>\<open>min_size\<close>.\<close>

definition default_min_size :: int where
  "default_min_size = 1024 * 1024"

subsection \<open>\<^verbatim>\<open>GLOBAL_CACHES\<close> and \<^verbatim>\<open>scan_global\<close>\<close>

text \<open>
  What the lambdas of \<^verbatim>\<open>GLOBAL_CACHES\<close> read from the host:
  \<^verbatim>\<open>Path.home()\<close>, which raises \<^verbatim>\<open>RuntimeError\<close> when the home directory
  cannot be determined (\<open>None\<close>), and whether \<^verbatim>\<open>os.name == "nt"\<close>.
\<close>

record host =
  home :: "path option"
  nt :: bool

definition under_home :: "host \<Rightarrow> string list \<Rightarrow> string list \<Rightarrow> error + path" where
  "under_home h on_nt otherwise =
     (case home h of
        None \<Rightarrow> Inl RuntimeError
      | Some p \<Rightarrow> Inr (p @ (if nt h then on_nt else otherwise)))"

definition GLOBAL_CACHES :: "(string \<times> (host \<Rightarrow> error + path)) list" where
  "GLOBAL_CACHES =
    [(''npm'', \<lambda>h. under_home h [''AppData'', ''Local'', ''npm-cache''] [''.npm'']),
     (''yarn'', \<lambda>h. under_home h [''AppData'', ''Local'', ''Yarn'', ''Cache''] [''.cache'', ''yarn'']),
     (''pip'', \<lambda>h. under_home h [''AppData'', ''Local'', ''pip'', ''cache''] [''.cache'', ''pip'']),
     (''cargo'', \<lambda>h. under_home h [''.cargo'', ''registry'', ''cache'']
                                   [''.cargo'', ''registry'', ''cache'']),
     (''go'', \<lambda>h. under_home h [''AppData'', ''Local'', ''go-build''] [''.cache'', ''go-build''])]"

text \<open>
  The loop of \<^verbatim>\<open>scan_global\<close>; \<^verbatim>\<open>except Exception: pass\<close> goes on with the
  next cache.
\<close>

fun global_loop ::
  "entry \<Rightarrow> host \<Rightarrow> int \<Rightarrow> (string \<times> (host \<Rightarrow> error + path)) list \<Rightarrow> Match list \<Rightarrow> Match list"
where
  "global_loop fs h min_size [] ms = ms"
| "global_loop fs h min_size ((nm, get_path) # rest) ms =
     (case get_path h of
        Inl err \<Rightarrow> global_loop fs h min_size rest ms
      | Inr p \<Rightarrow>
          (case lookup_path fs p of
             None \<Rightarrow> global_loop fs h min_size rest ms
           | Some e \<Rightarrow>
               if exists e
               then (let size = get_size e in
                     if size \<ge> min_size
                     then global_loop fs h min_size rest
                            (ms @ [\<lparr>path = p, category = ''global'', cache_type = nm,
                                    size_bytes = size\<rparr>])
                     else global_loop fs h min_size rest ms)
               else global_loop fs h min_size rest ms))"

definition scan_global :: "entry \<Rightarrow> host \<Rightarrow> int \<Rightarrow> Match list" where
  "scan_global fs h min_size = sorted_by_size (global_loop fs h min_size GLOBAL_CACHES [])"

subsection \<open>The history store\<close>

text \<open>
  The values \<^verbatim>\<open>json.loads\<close> returns.  A dictionary is the list of its
  items; the numbers this program writes are integers.
\<close>

datatype json =
    JNull
  | JBool bool
  | JInt int
  | JStr string
  | JList "json list"
  | JDict "(string \<times> json) list"

text \<open>
  The file \<^verbatim>\<open>history.json\<close>: absent, a text that \<^verbatim>\<open>json.loads\<close> rejects
  (or that cannot be read), or a text that it parses to a value.
  \<^verbatim>\<open>json.dumps\<close> writes a text that parses back to the value written.
\<close>

datatype history_file = NoFile | Unparsable | Parses json

fun load_history :: "history_file \<Rightarrow> json" where
  "load_history NoFile = JList []"
| "load_history Unparsable = JList []"
| "load_history (Parses data) =
     (case data of
        JDict items \<Rightarrow>
          (case map_of items ''sessions'' of
             Some sessions \<Rightarrow> sessions
           | None \<Rightarrow> JList [])
      | JList records \<Rightarrow> JList records
      | _ \<Rightarrow> JList [])"

text \<open>\<^verbatim>\<open>sessions[-100:]\<close> is the whole list when it has fewer than 100 elements.\<close>

definition save_history :: "json list \<Rightarrow> history_file" where
  "save_history sessions = Parses (JList (drop (length sessions - 100) sessions))"

text \<open>
  The record \<^verbatim>\<open>add_session\<close> appends; \<open>now\<close> is
  \<^verbatim>\<open>datetime.now().isoformat()\<close>.
\<close>

definition session :: "string \<Rightarrow> string \<Rightarrow> int \<Rightarrow> int \<Rightarrow> bool \<Rightarrow> json" where
  "session now scan_path sz items dry_run =
     JDict [(''date'', JStr (take 16 now)), (''path'', JStr scan_path), (''size'', JInt sz),
            (''items'', JInt items), (''dry_run'', JBool dry_run)]"

text \<open>
  \<^verbatim>\<open>h.append\<close> exists only on a list: when the legacy form wraps anything
  else, the call raises \<^verbatim>\<open>AttributeError\<close>.
\<close>

definition add_session ::
  "history_file \<Rightarrow> string \<Rightarrow> string \<Rightarrow> int \<Rightarrow> int \<Rightarrow> bool \<Rightarrow> error + history_file" where
  "add_session f now scan_path sz items dry_run =
     (case load_history f of
        JList h \<Rightarrow> Inr (save_history (h @ [session now scan_path sz items dry_run]))
      | _ \<Rightarrow> Inl AttributeError)"

text \<open>
  Appending a sequence of sessions, one call of \<^verbatim>\<open>add_session\<close> each;
  \<open>session_of\<close> is the record the call appends.
\<close>

fun session_of :: "string \<times> string \<times> int \<times> int \<times> bool \<Rightarrow> json" where
  "session_of (now, scan_path, sz, items, dry_run) = session now scan_path sz items dry_run"

fun add_sessions ::
  "history_file \<Rightarrow> (string \<times> string \<times> int \<times> int \<times> bool) list \<Rightarrow> error + history_file" where
  "add_sessions f [] = Inr f"
| "add_sessions f ((now, scan_path, sz, items, dry_run) # rest) =
     (case add_session f now scan_path sz items dry_run of
        Inl err \<Rightarrow> Inl err
      | Inr f' \<Rightarrow> add_sessions f' rest)"

subsection \<open>\<^verbatim>\<open>clean_matches\<close>\<close>

text \<open>
  Deleting is the operating system's work.  \<^verbatim>\<open>clean_matches\<close> uses three
  operations on the disk: \<^verbatim>\<open>Path.is_file\<close>, \<^verbatim>\<open>Path.unlink\<close> and
  \<^verbatim>\<open>shutil.rmtree\<close>.  Each removal either succeeds or raises, and in both
  cases leaves a disk behind (a failing \<^verbatim>\<open>rmtree\<close> may have removed part of
  the tree).  The cleaner is defined for any such operations on any type of
  disk.
\<close>

datatype 'fs attempt = Removed 'fs | Raised 'fs

record 'fs fileops =
  path_is_file :: "'fs \<Rightarrow> path \<Rightarrow> bool"
  unlink :: "'fs \<Rightarrow> path \<Rightarrow> 'fs attempt"
  rmtree :: "'fs \<Rightarrow> path \<Rightarrow> 'fs attempt"

record 'fs world =
  disk :: 'fs
  history :: history_file

text \<open>What \<^verbatim>\<open>clean_matches\<close> prints before it returns.\<close>

datatype report =
    NoMatches
  | Preview int
  | Aborted
  | Done int int

text \<open>The body of \<^verbatim>\<open>try\<close>, up to the removal.\<close>

definition delete_one :: "'fs fileops \<Rightarrow> 'fs \<Rightarrow> Match \<Rightarrow> 'fs attempt" where
  "delete_one os fs m =
     (if path_is_file os fs (path m) then unlink os fs (path m) else rmtree os fs (path m))"

text \<open>
  \<^verbatim>\<open>for m in matches\<close>, on the disk and the counters \<^verbatim>\<open>freed\<close> and
  \<^verbatim>\<open>deleted\<close>; \<^verbatim>\<open>except Exception: pass\<close> goes on with the next match.
\<close>

fun clean_loop :: "'fs fileops \<Rightarrow> Match list \<Rightarrow> 'fs \<times> int \<times> int \<Rightarrow> 'fs \<times> int \<times> int" where
  "clean_loop os [] acc = acc"
| "clean_loop os (m # ms) (fs, freed, deleted) =
     (case delete_one os fs m of
        Removed fs' \<Rightarrow> clean_loop os ms (fs', freed + size_bytes m, deleted + 1)
      | Raised fs' \<Rightarrow> clean_loop os ms (fs', freed, deleted))"

text \<open>
  \<open>confirm\<close> is the answer to \<^verbatim>\<open>click.confirm("Proceed?")\<close>.  The result is
  the world after the call, with the report or the exception that left it.
\<close>

definition clean_matches ::
  "'fs fileops \<Rightarrow> bool \<Rightarrow> string \<Rightarrow> 'fs world \<Rightarrow> Match list \<Rightarrow> bool \<Rightarrow> string \<Rightarrow> bool
     \<Rightarrow> 'fs world \<times> (error + report)" where
  "clean_matches os confirm now w ms dry_run scan_path skip_confirm =
     (if ms = [] then (w, Inr NoMatches)
      else
        (let total = sum_list (map size_bytes ms) in
         if dry_run then
           (case add_session (history w) now scan_path total (int (length ms)) True of
              Inl err \<Rightarrow> (w, Inl err)
            | Inr f \<Rightarrow> (w\<lparr>history := f\<rparr>, Inr (Preview total)))
         else if \<not> skip_confirm \<and> \<not> confirm then (w, Inr Aborted)
         else
           (case clean_loop os ms (disk w, 0, 0) of
              (fs', freed, deleted) \<Rightarrow>
                (case add_session (history w) now scan_path freed deleted False of
                   Inl err \<Rightarrow> (w\<lparr>disk := fs'\<rparr>, Inl err)
                 | Inr f \<Rightarrow> (\<lparr>disk = fs', history = f\<rparr>, Inr (Done deleted freed))))))"



text \<open>
  One operating system on the filesystem tree, for the scenarios: a removal
  that fails leaves the tree as it was; \<^verbatim>\<open>unlink\<close> removes a file;
  \<^verbatim>\<open>rmtree\<close> removes a directory that is not a symbolic link and in which
  every directory it has to empty can be listed.
\<close>

fun remove :: "entry \<Rightarrow> string list \<Rightarrow> entry" where
  "remove e [] = e"
| "remove e [n] =
     (case e of
        Dir dn r l rd cs \<Rightarrow> Dir dn r l rd (filter (\<lambda>c. name c \<noteq> n) cs)
      | _ \<Rightarrow> e)"
| "remove e (n # ns) =
     (case e of
        Dir dn r l rd cs \<Rightarrow> Dir dn r l rd (map (\<lambda>c. if name c = n then remove c ns else c) cs)
      | _ \<Rightarrow> e)"

definition remove_path :: "entry \<Rightarrow> path \<Rightarrow> entry" where
  "remove_path fs p = (case p of [] \<Rightarrow> fs | anchor # ns \<Rightarrow> remove fs ns)"

fun can_empty :: "entry \<Rightarrow> bool" where
  "can_empty (Dir n r l rd cs) = (l \<or> (rd \<and> list_all can_empty cs))"
| "can_empty e = True"

definition tree_ops :: "entry fileops" where
  "tree_ops =
     \<lparr>path_is_file = (\<lambda>fs p. case lookup_path fs p of Some e \<Rightarrow> is_file e | None \<Rightarrow> False),
      unlink = (\<lambda>fs p. case lookup_path fs p of
                         Some e \<Rightarrow> if is_file e then Removed (remove_path fs p) else Raised fs
                       | None \<Rightarrow> Raised fs),
      rmtree = (\<lambda>fs p. case lookup_path fs p of
                         Some (Dir n r l rd cs) \<Rightarrow>
                           if \<not> l \<and> rd \<and> list_all can_empty cs then Removed (remove_path fs p)
                           else Raised fs
                       | _ \<Rightarrow> Raised fs)\<rparr>"

subsection \<open>The minimum size of the \<^verbatim>\<open>scan\<close> command\<close>

text \<open>\<^verbatim>\<open>str.upper\<close> on ASCII text.\<close>

definition upper_char :: "char \<Rightarrow> char" where
  "upper_char c =
     (case map_of (zip ''abcdefghijklmnopqrstuvwxyz'' ''ABCDEFGHIJKLMNOPQRSTUVWXYZ'') c of
        Some u \<Rightarrow> u
      | None \<Rightarrow> c)"

definition upper :: "string \<Rightarrow> string" where
  "upper s = map upper_char s"

text \<open>
  A Python \<^verbatim>\<open>float\<close> is a finite binary fraction, an infinity (with its
  sign) or not a number.
\<close>

datatype pyfloat = Finite rat | Infinite bool | NaN

definition digit_of :: "char \<Rightarrow> nat" where
  "digit_of c = (case map_of (zip ''0123456789'' [0, 1, 2, 3, 4, 5, 6, 7, 8, 9]) c of Some d \<Rightarrow> d | None \<Rightarrow> 0)"

definition is_digits :: "string \<Rightarrow> bool" where
  "is_digits s = (s \<noteq> [] \<and> list_all (\<lambda>c. c \<in> set ''0123456789'') s)"

definition digits_value :: "string \<Rightarrow> nat" where
  "digits_value s = foldl (\<lambda>acc c. 10 * acc + digit_of c) 0 s"

text \<open>
  \<^verbatim>\<open>float(s)\<close>.  The conversion is Python's, not the program's.  Two facts
  about it are written out: the empty string raises \<^verbatim>\<open>ValueError\<close>, and a
  string of decimal digits that denotes a number up to \<open>2\<^sup>5\<^sup>3\<close> is that number,
  without rounding.  On every other string it is the parameter \<open>builtin\<close>.
\<close>

definition py_float :: "(string \<Rightarrow> error + pyfloat) \<Rightarrow> string \<Rightarrow> error + pyfloat" where
  "py_float builtin s =
     (if s = [] then Inl ValueError
      else if is_digits s \<and> digits_value s \<le> 2 ^ 53 then Inr (Finite (of_nat (digits_value s)))
      else builtin s)"

text \<open>
  \<^verbatim>\<open>x * 1024**k\<close>: the product of a float with a power of two is exact, and
  infinite from \<open>2\<^sup>1\<^sup>0\<^sup>2\<^sup>4\<close> on.
\<close>

definition float_times :: "pyfloat \<Rightarrow> int \<Rightarrow> pyfloat" where
  "float_times x k =
     (case x of
        Finite q \<Rightarrow>
          if \<bar>q * of_int k\<bar> < 2 ^ 1024 then Finite (q * of_int k) else Infinite (q < 0)
      | Infinite negative \<Rightarrow> Infinite negative
      | NaN \<Rightarrow> NaN)"

text \<open>\<^verbatim>\<open>int(x)\<close> truncates towards zero.\<close>

definition py_int :: "pyfloat \<Rightarrow> error + int" where
  "py_int x =
     (case x of
        Finite q \<Rightarrow> Inr (if 0 \<le> q then \<lfloor>q\<rfloor> else - \<lfloor>- q\<rfloor>)
      | Infinite negative \<Rightarrow> Inl OverflowError
      | NaN \<Rightarrow> Inl ValueError)"

text \<open>\<^verbatim>\<open>int(float(s) * k)\<close>.\<close>

definition to_bytes :: "(string \<Rightarrow> error + pyfloat) \<Rightarrow> string \<Rightarrow> int \<Rightarrow> error + int" where
  "to_bytes builtin s k =
     (case py_float builtin s of
        Inl err \<Rightarrow> Inl err
      | Inr x \<Rightarrow> py_int (float_times x k))"

text \<open>
  The lines of \<^verbatim>\<open>scan\<close> under \<^verbatim>\<open># Parse min size\<close>: the value of
  \<^verbatim>\<open>min_bytes\<close>, or the exception that leaves the command.
\<close>

definition scan_min_bytes :: "(string \<Rightarrow> error + pyfloat) \<Rightarrow> string \<Rightarrow> error + int" where
  "scan_min_bytes builtin min_size =
     (let ms = upper min_size in
      if endswith ms ''GB'' then to_bytes builtin (take (length ms - 2) ms) (1024 ^ 3)
      else if endswith ms ''MB'' then to_bytes builtin (take (length ms - 2) ms) (1024 ^ 2)
      else if endswith ms ''KB'' then to_bytes builtin (take (length ms - 2) ms) 1024
      else Inr (1024 * 1024))"

subsection \<open>What the scanner records\<close>

text \<open>
  \<open>found categories min_size p m\<close>: the match \<open>m\<close> lies below \<open>p\<close>, at
  \<open>p @ rel\<close>; its last name is matched by the patterns, to the category and
  type \<open>m\<close> carries; none of the names on the way from \<open>p\<close> to it is matched;
  and its size reaches the threshold.
\<close>

definition found :: "string list option \<Rightarrow> int \<Rightarrow> path \<Rightarrow> Match \<Rightarrow> bool" where
  "found categories min_size p m =
     (min_size \<le> size_bytes m \<and>
      (\<exists>rel. path m = p @ rel \<and> rel \<noteq> [] \<and>
         (\<forall>anc. anc \<noteq> [] \<and> strict_prefix anc rel \<longrightarrow> match_name categories (last anc) = None) \<and>
         match_name categories (last rel) = Some (category m, cache_type m)))"

text \<open>
  \<open>extends categories min_size p st st'\<close>: from \<open>st\<close> to \<open>st'\<close> the scanner has
  appended matches found below \<open>p\<close>, with pairwise different paths that were
  not seen before, and has added exactly their paths to \<^verbatim>\<open>seen\<close>.
\<close>

definition extends :: "string list option \<Rightarrow> int \<Rightarrow> path \<Rightarrow> scan_state \<Rightarrow> scan_state \<Rightarrow> bool" where
  "extends categories min_size p st st' =
     (\<exists>new. matches st' = matches st @ new \<and>
            seen st' = seen st \<union> set (map path new) \<and>
            distinct (map path new) \<and>
            (\<forall>m \<in> set new. path m \<notin> seen st \<and> found categories min_size p m))"

subsection \<open>Scenarios\<close>

text \<open>One hundred and five sessions, told apart by their sizes.\<close>

definition hundred_and_five :: "(string \<times> string \<times> int \<times> int \<times> bool) list" where
  "hundred_and_five = map (\<lambda>i. (''2024-01-01T00:00:00'', ''/p'', int i, 1, True)) [0 ..< 105]"

text \<open>
  A project \<^verbatim>\<open>/p\<close> with three cache directories.  \<^verbatim>\<open>build\<close> holds a
  directory that cannot be listed, so it cannot be removed.
\<close>

definition project_fs :: entry where
  "project_fs =
     Dir ''/'' [''/''] False True
       [Dir ''p'' [''/'', ''p''] False True
          [Dir ''node_modules'' [''/'', ''p'', ''node_modules''] False True
             [File ''a.js'' [''/'', ''p'', ''node_modules'', ''a.js''] 3145728],
           Dir ''build'' [''/'', ''p'', ''build''] False True
             [File ''out.o'' [''/'', ''p'', ''build'', ''out.o''] 2097152,
              Dir ''locked'' [''/'', ''p'', ''build'', ''locked''] False False []],
           Dir ''target'' [''/'', ''p'', ''target''] False True
             [File ''lib.rlib'' [''/'', ''p'', ''target'', ''lib.rlib''] 1048576]]]"

definition node_modules_match :: Match where
  "node_modules_match =
     \<lparr>path = [''/'', ''p'', ''node_modules''], category = ''node'',
      cache_type = ''node_modules'', size_bytes = 3145728\<rparr>"

definition build_match :: Match where
  "build_match =
     \<lparr>path = [''/'', ''p'', ''build''], category = ''python'',
      cache_type = ''eggs'', size_bytes = 2097152\<rparr>"

definition target_match :: Match where
  "target_match =
     \<lparr>path = [''/'', ''p'', ''target''], category = ''rust'',
      cache_type = ''target'', size_bytes = 1048576\<rparr>"

definition project_world :: "entry world" where
  "project_world = \<lparr>disk = project_fs, history = NoFile\<rparr>"


text \<open>
  A directory \<^verbatim>\<open>/r\<close> with a project \<^verbatim>\<open>a\<close> and a symbolic link
  \<^verbatim>\<open>b\<close> to it: through the link the scanner sees the content of \<^verbatim>\<open>a\<close>
  again, and \<^verbatim>\<open>resolve\<close> gives the same canonical paths.
\<close>

definition link_fs :: entry where
  "link_fs =
     Dir ''/'' [''/''] False True
       [Dir ''r'' [''/'', ''r''] False True
          [Dir ''a'' [''/'', ''r'', ''a''] False True
             [Dir ''node_modules'' [''/'', ''r'', ''a'', ''node_modules''] False True
                [File ''x.js'' [''/'', ''r'', ''a'', ''node_modules'', ''x.js''] 2097152]],
           Dir ''b'' [''/'', ''r'', ''a''] True True
             [Dir ''node_modules'' [''/'', ''r'', ''a'', ''node_modules''] False True
                [File ''x.js'' [''/'', ''r'', ''a'', ''node_modules'', ''x.js''] 2097152]]]]"

definition via_a :: Match where
  "via_a = \<lparr>path = [''/'', ''r'', ''a'', ''node_modules''], category = ''node'',
            cache_type = ''node_modules'', size_bytes = 2097152\<rparr>"

definition via_b :: Match where
  "via_b = \<lparr>path = [''/'', ''r'', ''b'', ''node_modules''], category = ''node'',
            cache_type = ''node_modules'', size_bytes = 2097152\<rparr>"

text \<open>A home directory with an npm cache of 5 MiB and a pip cache of 100 bytes.\<close>

definition home_fs :: entry where
  "home_fs =
     Dir ''/'' [''/''] False True
       [Dir ''home'' [''/'', ''home''] False True
          [Dir ''u'' [''/'', ''home'', ''u''] False True
             [Dir ''.npm'' [''/'', ''home'', ''u'', ''.npm''] False True
                [File ''pkg.tgz'' [''/'', ''home'', ''u'', ''.npm'', ''pkg.tgz''] 5242880],
              Dir ''.cache'' [''/'', ''home'', ''u'', ''.cache''] False True
                [Dir ''pip'' [''/'', ''home'', ''u'', ''.cache'', ''pip''] False True
                   [File ''wheel'' [''/'', ''home'', ''u'', ''.cache'', ''pip'', ''wheel''] 100]]]]]"

definition unix_host :: host where
  "unix_host = \<lparr>home = Some [''/'', ''home'', ''u''], nt = False\<rparr>"

definition npm_match :: Match where
  "npm_match = \<lparr>path = [''/'', ''home'', ''u'', ''.npm''], category = ''global'',
                cache_type = ''npm'', size_bytes = 5242880\<rparr>"

section \<open>Properties\<close>

subsection \<open>Pattern matching\<close>

lemma endswith_suffix: "endswith s p = suffix p s"
proof
  assume "endswith s p"
  then have "s = take (length s - length p) s @ p"
    by (metis append_take_drop_id endswith_def)
  then show "suffix p s"
    by (metis suffixI)
next
  assume "suffix p s"
  then obtain zs where "s = zs @ p"
    by (auto simp: suffix_def)
  then show "endswith s p"
    by (simp add: endswith_def)
qed

lemma pattern_hit_spec: "pattern_hit nm pattern = spec_pattern_matches nm pattern"
  by (cases pattern)
     (auto simp: pattern_hit_def spec_pattern_matches_def startswith_def endswith_suffix)

lemma match_patterns_ex: "match_patterns nm ps = list_ex (spec_pattern_matches nm) ps"
  by (induction ps) (simp_all add: pattern_hit_spec)

lemma spec_rows_Cons:
  "spec_rows ((c, types) # rest) = map (\<lambda>(t, ps, d). (c, t, ps)) types @ spec_rows rest"
  by (simp add: spec_rows_def)

lemma find_append:
  "find P (xs @ ys) = (case find P xs of Some x \<Rightarrow> Some x | None \<Rightarrow> find P ys)"
  by (induction xs) simp_all

lemma match_types_find:
  "map_option (\<lambda>t. (c, t)) (match_types nm types) =
     map_option (\<lambda>(c, t, ps). (c, t))
       (find (\<lambda>(c, t, ps). list_ex (spec_pattern_matches nm) ps)
          (map (\<lambda>(t, ps, d). (c, t, ps)) types))"
  by (induction types) (auto simp: match_patterns_ex)

lemma match_cats_spec:
  "match_cats categories nm cat = spec_first_match categories nm cat"
proof (induction cat)
  case Nil
  then show ?case by (simp add: spec_first_match_def spec_rows_def)
next
  case (Cons row rest)
  obtain c types where row: "row = (c, types)" by (cases row)
  let ?P = "\<lambda>(c, t, ps). list_ex (spec_pattern_matches nm) ps"
  let ?Q = "\<lambda>(c, t, ps). \<not> cat_skipped categories c"
  let ?here = "map (\<lambda>(t, ps, d). (c, t, ps)) types"
  show ?case
  proof (cases "cat_skipped categories c")
    case True
    then have "filter ?Q ?here = []"
      by (induction types) auto
    with True Cons.IH show ?thesis
      by (simp add: row spec_first_match_def spec_rows_Cons)
  next
    case False
    then have keep: "filter ?Q ?here = ?here"
      by (induction types) auto
    have "map_option (\<lambda>(c, t, ps). (c, t)) (find ?P ?here) =
            map_option (\<lambda>t. (c, t)) (match_types nm types)"
      by (simp add: match_types_find)
    with False Cons.IH keep show ?thesis
      by (cases "match_types nm types"; cases "find ?P ?here")
         (simp_all add: row spec_first_match_def spec_rows_Cons find_append)
  qed
qed

text \<open>
  Claim C7.  For every entry name and every category filter, the three loops
  of the scanner assign exactly what the pattern catalogue specifies: the
  first category and cache type, in registration order among the allowed
  categories, one of whose patterns matches, where a pattern without leading
  wildcard matches by equality and a pattern starting with \<open>*\<close> matches when
  the name ends with the remainder; and nothing when no pattern matches.  An
  entry named \<open>build\<close>, a pattern of both python/eggs and java/gradle,
  resolves to python/eggs, the category registered first.
\<close>

theorem match_name_first_match:
  "match_name categories nm = spec_first_match categories nm CACHE_TYPES
   \<and> match_name None ''build'' = Some (''python'', ''eggs'')"
proof
  show "match_name categories nm = spec_first_match categories nm CACHE_TYPES"
    by (simp add: match_name_def match_cats_spec)
  show "match_name None ''build'' = Some (''python'', ''eggs'')"
    by (simp add: match_name_def CACHE_TYPES_def cat_skipped_def pattern_hit_def
        startswith_def endswith_def)
qed

theorem match_name_first_match_witness:
  "spec_first_match (Some [''java'', ''rust'']) ''build'' CACHE_TYPES = Some (''java'', ''gradle'')
   \<and> match_name (Some [''java'', ''rust'']) ''x.pyc'' = None"
proof -
  have "match_name (Some [''java'', ''rust'']) ''build'' = Some (''java'', ''gradle'')"
    by (simp add: match_name_def CACHE_TYPES_def cat_skipped_def pattern_hit_def
        startswith_def endswith_def)
  moreover have "match_name (Some [''java'', ''rust'']) ''x.pyc'' = None"
    by (simp add: match_name_def CACHE_TYPES_def cat_skipped_def pattern_hit_def
        startswith_def endswith_def)
  ultimately show ?thesis
    using match_name_first_match [of "Some [''java'', ''rust'']" "''build''"] by simp
qed

subsection \<open>The history store\<close>

lemma drop_last_append:
  "drop (length (drop (length xs - n) xs @ ys) - n) (drop (length xs - n) xs @ ys)
     = drop (length (xs @ ys) - n) (xs @ ys)"
proof (cases "length xs \<le> n")
  case True
  then show ?thesis by simp
next
  case False
  then show ?thesis by (simp add: add.commute)
qed

lemma add_session_list:
  "load_history f = JList h \<Longrightarrow>
     add_session f now sp sz it dr = Inr (save_history (h @ [session now sp sz it dr]))"
  by (simp add: add_session_def)

lemma load_save: "load_history (save_history xs) = JList (drop (length xs - 100) xs)"
  by (simp add: save_history_def)

lemma add_sessions_load:
  "load_history f = JList h \<Longrightarrow>
     \<exists>f'. add_sessions f rs = Inr f' \<and>
          load_history f' =
            JList (if rs = [] then h
                   else drop (length (h @ map session_of rs) - 100) (h @ map session_of rs))"
proof (induction rs arbitrary: f h)
  case Nil
  then show ?case by simp
next
  case (Cons r rest)
  obtain now sp sz it dr where r: "r = (now, sp, sz, it, dr)"
    by (cases r) auto
  let ?h1 = "h @ [session now sp sz it dr]"
  let ?f1 = "save_history ?h1"
  have step: "add_session f now sp sz it dr = Inr ?f1"
    using Cons.prems by (rule add_session_list)
  have l1: "load_history ?f1 = JList (drop (length ?h1 - 100) ?h1)"
    by (rule load_save)
  from Cons.IH [OF l1] obtain f' where
    run: "add_sessions ?f1 rest = Inr f'" and
    ld: "load_history f' =
           JList (if rest = [] then drop (length ?h1 - 100) ?h1
                  else drop (length (drop (length ?h1 - 100) ?h1 @ map session_of rest) - 100)
                         (drop (length ?h1 - 100) ?h1 @ map session_of rest))"
    by blast
  have "add_sessions f (r # rest) = Inr f'"
    using step run by (simp add: r)
  moreover have "load_history f' =
      JList (drop (length (h @ map session_of (r # rest)) - 100) (h @ map session_of (r # rest)))"
  proof (cases "rest = []")
    case True
    with ld show ?thesis by (simp add: r)
  next
    case False
    with ld have "load_history f' =
        JList (drop (length (?h1 @ map session_of rest) - 100) (?h1 @ map session_of rest))"
      by (simp only: drop_last_append if_False)
    then show ?thesis by (simp add: r)
  qed
  ultimately show ?case by simp
qed

text \<open>
  Claim C8.  Whatever list of records the history held before, after a
  sequence of at least 100 calls of \<^verbatim>\<open>add_session\<close> every call has
  returned, and loading the history returns exactly the records of the last
  100 calls (the older ones are dropped), in the order in which they were
  appended.
\<close>

theorem history_bound:
  assumes "load_history f = JList h" and "100 \<le> length rs"
  shows "\<exists>f'. add_sessions f rs = Inr f' \<and>
              load_history f' = JList (drop (length rs - 100) (map session_of rs)) \<and>
              length (drop (length rs - 100) (map session_of rs)) = 100"
proof -
  from assms(2) have ne: "rs \<noteq> []" by auto
  from add_sessions_load [OF assms(1), of rs] ne obtain f' where
    run: "add_sessions f rs = Inr f'" and
    ld: "load_history f' = JList (drop (length (h @ map session_of rs) - 100) (h @ map session_of rs))"
    by auto
  have "drop (length (h @ map session_of rs) - 100) (h @ map session_of rs)
          = drop (length rs - 100) (map session_of rs)"
    using assms(2) by simp
  with run ld assms(2) show ?thesis by simp
qed

theorem history_bound_witness:
  "\<exists>f'. add_sessions NoFile hundred_and_five = Inr f' \<and>
        load_history f' = JList (drop 5 (map session_of hundred_and_five))"
  using history_bound [of NoFile "[]" hundred_and_five]
  by (simp add: hundred_and_five_def)



subsection \<open>The cleaner\<close>







text \<open>
  Claim C2.  In execute mode without \<open>skip_confirm\<close>, when the prompt is
  declined, the call returns with the world as it was: nothing is deleted and
  no session record is appended.
\<close>

theorem clean_declined:
  "clean_matches os False now w ms False scan_path False =
     (w, Inr (if ms = [] then NoMatches else Aborted))"
  by (simp add: clean_matches_def Let_def)

theorem clean_declined_witness:
  "clean_matches tree_ops False ''2024-05-01T10:30:59.123'' project_world
       [node_modules_match, build_match, target_match] False ''/p'' False =
     (project_world, Inr Aborted)"
  using clean_declined [of tree_ops "''2024-05-01T10:30:59.123''" project_world
          "[node_modules_match, build_match, target_match]" "''/p''"]
  by simp



subsection \<open>The scanner\<close>

lemma extends_refl: "extends categories min_size p st st"
  by (auto simp: extends_def)

lemma extends_trans:
  assumes "extends categories min_size p st st1" and "extends categories min_size p st1 st2"
  shows "extends categories min_size p st st2"
proof -
  from assms(1) obtain n1 where n1: "matches st1 = matches st @ n1"
    "seen st1 = seen st \<union> set (map path n1)" "distinct (map path n1)"
    "\<forall>m \<in> set n1. path m \<notin> seen st \<and> found categories min_size p m"
    unfolding extends_def by blast
  from assms(2) obtain n2 where n2: "matches st2 = matches st1 @ n2"
    "seen st2 = seen st1 \<union> set (map path n2)" "distinct (map path n2)"
    "\<forall>m \<in> set n2. path m \<notin> seen st1 \<and> found categories min_size p m"
    unfolding extends_def by blast
  have "matches st2 = matches st @ (n1 @ n2)"
    using n1(1) n2(1) by simp
  moreover have "seen st2 = seen st \<union> set (map path (n1 @ n2))"
    using n1(2) n2(2) by auto
  moreover have "distinct (map path (n1 @ n2))"
  proof -
    have "x \<notin> set (map path n1)" if "x \<in> set (map path n2)" for x
    proof -
      from that obtain m where "m \<in> set n2" and "x = path m" by auto
      with n1(2) n2(4) show ?thesis by blast
    qed
    then have "set (map path n1) \<inter> set (map path n2) = {}"
      by blast
    with n1(3) n2(3) show ?thesis by simp
  qed
  moreover have "\<forall>m \<in> set (n1 @ n2). path m \<notin> seen st \<and> found categories min_size p m"
    using n1(2,4) n2(4) by auto
  ultimately show ?thesis
    unfolding extends_def by blast
qed

lemma found_child:
  assumes "match_name categories n = None" and "found categories min_size (p @ [n]) m"
  shows "found categories min_size p m"
proof -
  from assms(2) obtain rel where rel: "path m = (p @ [n]) @ rel" "rel \<noteq> []"
    "\<forall>anc. anc \<noteq> [] \<and> strict_prefix anc rel \<longrightarrow> match_name categories (last anc) = None"
    "match_name categories (last rel) = Some (category m, cache_type m)"
    and sz: "min_size \<le> size_bytes m"
    unfolding found_def by blast
  have "path m = p @ (n # rel)" using rel(1) by simp
  moreover have "n # rel \<noteq> []" by simp
  moreover have "match_name categories (last anc) = None"
    if "anc \<noteq> []" "strict_prefix anc (n # rel)" for anc
  proof (cases anc)
    case Nil
    with that show ?thesis by simp
  next
    case (Cons a anc')
    with that(2) have a: "a = n" and pre: "strict_prefix anc' rel"
      by (auto simp: strict_prefix_def)
    show ?thesis
    proof (cases "anc' = []")
      case True
      with Cons a assms(1) show ?thesis by simp
    next
      case False
      with rel(3) pre have "match_name categories (last anc') = None" by blast
      with False Cons show ?thesis by simp
    qed
  qed
  moreover have "match_name categories (last (n # rel)) = Some (category m, cache_type m)"
    using rel(2,4) by simp
  ultimately show ?thesis
    using sz unfolding found_def by blast
qed

lemma extends_child:
  assumes "match_name categories n = None" and "extends categories min_size (p @ [n]) st st'"
  shows "extends categories min_size p st st'"
  using assms unfolding extends_def by (blast intro: found_child)

lemma extends_record:
  assumes "p @ [n] \<notin> seen st" and "match_name categories n = Some (cat, type_name)"
    and "min_size \<le> sz"
  shows "extends categories min_size p st
           (st\<lparr>seen := insert (p @ [n]) (seen st),
               matches := matches st @
                 [\<lparr>path = p @ [n], category = cat, cache_type = type_name, size_bytes = sz\<rparr>]\<rparr>)"
proof -
  let ?m = "\<lparr>path = p @ [n], category = cat, cache_type = type_name, size_bytes = sz\<rparr>"
  have "found categories min_size p ?m"
    unfolding found_def using assms(2,3)
    by (auto intro!: exI [of _ "[n]"] simp: strict_prefix_def prefix_Cons)
  then show ?thesis
    unfolding extends_def using assms(1)
    by (intro exI [of _ "[?m]"]) simp
qed

declare scan.simps [simp del]

lemma scan_extends:
  "\<forall>st'. scan categories max_depth min_size base_depth p e st = Inr st'
        \<longrightarrow> extends categories min_size p st st'"
  "\<forall>st'. scan_entries categories max_depth min_size base_depth p es st = Inr st'
        \<longrightarrow> extends categories min_size p st st'"
proof (induction categories max_depth min_size base_depth p e st
         and categories max_depth min_size base_depth p es st
       rule: scan_scan_entries.induct)
  case (1 categories max_depth min_size base_depth p e st)
  show ?case
    using "1.IH"
    by (subst scan.simps) (auto simp: extends_refl split: entry.splits)
next
  case (2 categories max_depth min_size base_depth p st)
  show ?case by (simp add: extends_refl)
next
  case (3 categories max_depth min_size base_depth p c cs st)
  let ?entry = "p @ [name c]"
  show ?case
  proof (intro allI impI)
    fix st'
    assume run: "scan_entries categories max_depth min_size base_depth p (c # cs) st = Inr st'"
    show "extends categories min_size p st st'"
    proof (cases "?entry \<in> seen st")
      case True
      with run "3.IH"(1) show ?thesis by (simp add: Let_def)
    next
      case unseen: False
      show ?thesis
      proof (cases "match_name categories (name c)")
        case None
        show ?thesis
        proof (cases "is_dir c")
          case True
          from run unseen None True obtain b where
            b: "scan categories max_depth min_size base_depth ?entry c st = Inr b" and
            rest: "scan_entries categories max_depth min_size base_depth p cs b = Inr st'"
            by (auto simp: Let_def split: sum.splits)
          from "3.IH"(2) [OF refl unseen None True] b
          have "extends categories min_size ?entry st b" by blast
          with None have "extends categories min_size p st b"
            by (rule extends_child)
          moreover from "3.IH"(3) [OF refl unseen None True b] rest
          have "extends categories min_size p b st'" by blast
          ultimately show ?thesis by (rule extends_trans)
        next
          case False
          with run unseen None "3.IH"(4) show ?thesis by (simp add: Let_def)
        qed
      next
        case (Some ct)
        obtain cat type_name where ct: "ct = (cat, type_name)" by (cases ct)
        show ?thesis
        proof (cases "min_size \<le> get_size c")
          case True
          let ?st1 = "st\<lparr>seen := insert ?entry (seen st),
                         matches := matches st @
                           [\<lparr>path = ?entry, category = cat, cache_type = type_name,
                             size_bytes = get_size c\<rparr>]\<rparr>"
          from run unseen Some ct True
          have rest: "scan_entries categories max_depth min_size base_depth p cs ?st1 = Inr st'"
            by (simp add: Let_def)
          from "3.IH"(5) [OF refl unseen Some ct [symmetric] refl True] rest
          have "extends categories min_size p ?st1 st'" by blast
          moreover have "extends categories min_size p st ?st1"
            using unseen Some True unfolding ct by (rule extends_record)
          ultimately show ?thesis by (rule extends_trans [rotated])
        next
          case False
          from run unseen Some ct False
          have rest: "scan_entries categories max_depth min_size base_depth p cs st = Inr st'"
            by (simp add: Let_def)
          from "3.IH"(6) [OF refl unseen Some ct [symmetric] refl False] rest
          show ?thesis by blast
        qed
      qed
    qed
  qed
qed

lemmas scan_eval = scan_dir_def resolve_def lookup_path_def default_min_size_def path_name_def
  skip_dirs_def too_deep_def match_name_def CACHE_TYPES_def cat_skipped_def pattern_hit_def
  startswith_def endswith_def sorted_by_size_def Let_def scan.simps

lemma scan_project:
  "scan_dir project_fs [''/'', ''p''] None None default_min_size
     = Inr [node_modules_match, build_match, target_match]"
  by (simp add: scan_eval project_fs_def node_modules_match_def build_match_def
        target_match_def)

lemma scan_link:
  "scan_dir link_fs [''/'', ''r''] None None default_min_size = Inr [via_a, via_b]"
  by (simp add: scan_eval link_fs_def via_a_def via_b_def)

lemma distinct_map_sort_key:
  "distinct (map f (sort_key k xs)) = distinct (map f xs)"
  by (simp add: distinct_map)

lemma scan_dir_found:
  assumes "scan_dir fs root_dir categories max_depth min_size = Inr out"
  shows "distinct (map path out)"
    and "\<forall>m \<in> set out. found categories min_size (resolve fs root_dir) m"
proof -
  let ?r = "resolve fs root_dir"
  let ?st0 = "\<lparr>seen = {}, matches = []\<rparr>"
  have "distinct (map path out) \<and> (\<forall>m \<in> set out. found categories min_size ?r m)"
  proof (cases "lookup_path fs ?r")
    case None
    with assms show ?thesis
      by (simp add: scan_dir_def Let_def sorted_by_size_def)
  next
    case (Some e)
    with assms obtain st where
      run: "scan categories max_depth min_size (length ?r) ?r e ?st0 = Inr st" and
      out: "out = sorted_by_size (matches st)"
      by (auto simp: scan_dir_def Let_def split: sum.splits)
    from scan_extends(1) run have "extends categories min_size ?r ?st0 st"
      by blast
    then have "distinct (map path (matches st))"
      and "\<forall>m \<in> set (matches st). found categories min_size ?r m"
      by (auto simp: extends_def)
    then show ?thesis
      by (simp add: out sorted_by_size_def distinct_map_sort_key)
  qed
  then show "distinct (map path out)"
    and "\<forall>m \<in> set out. found categories min_size (resolve fs root_dir) m"
    by blast+
qed

text \<open>
  Claim C4, as the code has it.  In the list a scan returns, no path occurs
  twice.  The paths are the ones the scanner builds, the resolved root joined
  with the names of the entries on the way; they are compared as they are, and
  no entry below the root is resolved.
\<close>

theorem scan_dir_paths_distinct:
  assumes "scan_dir fs root_dir categories max_depth min_size = Inr out"
  shows "distinct (map path out)"
  using assms by (rule scan_dir_found(1))

theorem scan_dir_paths_distinct_witness:
  "scan_dir link_fs [''/'', ''r''] None None default_min_size = Inr [via_a, via_b]
   \<and> distinct (map path [via_a, via_b])"
  using scan_dir_paths_distinct [OF scan_link] scan_link by simp

text \<open>
  Claim C4, as stated, fails: below \<^verbatim>\<open>/r\<close> the directory
  \<^verbatim>\<open>a/node_modules\<close> is matched a second time through the symbolic link
  \<^verbatim>\<open>b\<close>.  The two matches have different paths and the same resolved path.
\<close>

theorem scan_dir_resolved_duplicate:
  "scan_dir link_fs [''/'', ''r''] None None default_min_size = Inr [via_a, via_b]
   \<and> resolve link_fs (path via_a) = resolve link_fs (path via_b)
   \<and> \<not> distinct (map (\<lambda>m. resolve link_fs (path m)) [via_a, via_b])"
  using scan_link
  by (simp add: resolve_def lookup_path_def link_fs_def via_a_def via_b_def)

text \<open>
  Claim C5.  Every match of a scan lies below the resolved root, and no name
  on the way from the root to the match is matched by a pattern: the scanner
  never goes into an entry whose name matches, whatever its size.  So no
  match of a scan lies below another match of the same scan.
\<close>

theorem scan_dir_short_circuit:
  assumes "scan_dir fs root_dir categories max_depth min_size = Inr out"
  shows "(\<forall>m \<in> set out.
            \<exists>rel. path m = resolve fs root_dir @ rel \<and> rel \<noteq> [] \<and>
              (\<forall>anc. anc \<noteq> [] \<and> strict_prefix anc rel \<longrightarrow>
                 match_name categories (last anc) = None))
         \<and> (\<forall>m \<in> set out. \<forall>m' \<in> set out. \<not> strict_prefix (path m) (path m'))"
proof (intro conjI ballI)
  fix m assume "m \<in> set out"
  with scan_dir_found(2) [OF assms]
  have "found categories min_size (resolve fs root_dir) m" by blast
  then show "\<exists>rel. path m = resolve fs root_dir @ rel \<and> rel \<noteq> [] \<and>
              (\<forall>anc. anc \<noteq> [] \<and> strict_prefix anc rel \<longrightarrow>
                 match_name categories (last anc) = None)"
    unfolding found_def by blast
next
  fix m m' assume "m \<in> set out" and "m' \<in> set out"
  with scan_dir_found(2) [OF assms]
  have m: "found categories min_size (resolve fs root_dir) m"
    and m': "found categories min_size (resolve fs root_dir) m'" by blast+
  from m obtain rel where rel: "path m = resolve fs root_dir @ rel" "rel \<noteq> []"
    "match_name categories (last rel) = Some (category m, cache_type m)"
    unfolding found_def by blast
  from m' obtain rel' where rel': "path m' = resolve fs root_dir @ rel'"
    "\<forall>anc. anc \<noteq> [] \<and> strict_prefix anc rel' \<longrightarrow> match_name categories (last anc) = None"
    unfolding found_def by blast
  show "\<not> strict_prefix (path m) (path m')"
  proof
    assume "strict_prefix (path m) (path m')"
    then have "strict_prefix rel rel'"
      by (simp add: rel(1) rel'(1) strict_prefix_def)
    with rel(2) rel'(2) have "match_name categories (last rel) = None" by blast
    with rel(3) show False by simp
  qed
qed

theorem scan_dir_short_circuit_witness:
  "scan_dir project_fs [''/'', ''p''] None None default_min_size
     = Inr [node_modules_match, build_match, target_match]
   \<and> \<not> strict_prefix (path build_match) (path node_modules_match)"
  using scan_dir_short_circuit [OF scan_project] scan_project by simp

lemma global_loop_sizes:
  "\<forall>m \<in> set ms. min_size \<le> size_bytes m \<Longrightarrow>
     \<forall>m \<in> set (global_loop fs h min_size caches ms). min_size \<le> size_bytes m"
  by (induction fs h min_size caches ms rule: global_loop.induct)
     (auto simp: Let_def split: sum.splits option.splits)

text \<open>
  Claim C6.  Every match a tree scan returns, and every match a global cache
  scan returns, has a size of at least \<open>min_size\<close>; an entry below the
  threshold is not in the output.  The default of the threshold is 1 MiB.
\<close>

theorem scans_respect_min_size:
  "(scan_dir fs root_dir categories max_depth min_size = Inr out \<longrightarrow>
      (\<forall>m \<in> set out. min_size \<le> size_bytes m))
   \<and> (\<forall>m \<in> set (scan_global fs h min_size). min_size \<le> size_bytes m)
   \<and> default_min_size = 1048576"
proof (intro conjI impI)
  assume "scan_dir fs root_dir categories max_depth min_size = Inr out"
  from scan_dir_found(2) [OF this] show "\<forall>m \<in> set out. min_size \<le> size_bytes m"
    by (auto simp: found_def)
next
  show "\<forall>m \<in> set (scan_global fs h min_size). min_size \<le> size_bytes m"
    using global_loop_sizes [of "[]" min_size fs h GLOBAL_CACHES]
    by (simp add: scan_global_def sorted_by_size_def)
next
  show "default_min_size = 1048576"
    by (simp add: default_min_size_def)
qed

lemma scan_global_home: "scan_global home_fs unix_host default_min_size = [npm_match]"
  by (simp add: scan_global_def GLOBAL_CACHES_def under_home_def unix_host_def home_fs_def
        npm_match_def lookup_path_def default_min_size_def sorted_by_size_def Let_def)

lemma scan_project_2000000:
  "scan_dir project_fs [''/'', ''p''] None None 2000000 = Inr [node_modules_match, build_match]"
  by (simp add: scan_eval project_fs_def node_modules_match_def build_match_def)

theorem scans_respect_min_size_witness:
  "scan_dir project_fs [''/'', ''p''] None None 2000000 = Inr [node_modules_match, build_match]
   \<and> 2000000 \<le> size_bytes build_match
   \<and> scan_global home_fs unix_host default_min_size = [npm_match]
   \<and> default_min_size \<le> size_bytes npm_match"
  using scans_respect_min_size
          [where fs = project_fs and root_dir = "[''/'', ''p'']" and categories = None
             and max_depth = None and min_size = 2000000
             and out = "[node_modules_match, build_match]"]
        scans_respect_min_size
          [where fs = home_fs and h = unix_host and min_size = default_min_size]
        scan_project_2000000 scan_global_home
  by simp

lemma scan_returns:
  "is_dir e \<or> \<not> exists e \<longrightarrow>
     (\<exists>st'. scan categories max_depth min_size base_depth p e st = Inr st')"
  "\<exists>st'. scan_entries categories max_depth min_size base_depth p es st = Inr st'"
proof (induction categories max_depth min_size base_depth p e st
         and categories max_depth min_size base_depth p es st
       rule: scan_scan_entries.induct)
  case (1 categories max_depth min_size base_depth p e st)
  show ?case
    using "1.IH"
    by (subst scan.simps) (auto split: entry.splits)
next
  case (2 categories max_depth min_size base_depth p st)
  show ?case by simp
next
  case (3 categories max_depth min_size base_depth p c cs st)
  let ?entry = "p @ [name c]"
  show ?case
  proof (cases "?entry \<in> seen st")
    case True
    with "3.IH"(1) show ?thesis by (simp add: Let_def)
  next
    case unseen: False
    show ?thesis
    proof (cases "match_name categories (name c)")
      case None
      show ?thesis
      proof (cases "is_dir c")
        case True
        from "3.IH"(2) [OF refl unseen None True] True obtain b where
          b: "scan categories max_depth min_size base_depth ?entry c st = Inr b"
          by blast
        from "3.IH"(3) [OF refl unseen None True b] obtain st' where
          "scan_entries categories max_depth min_size base_depth p cs b = Inr st'"
          by blast
        with unseen None True b show ?thesis by (simp add: Let_def)
      next
        case False
        with unseen None "3.IH"(4) show ?thesis by (simp add: Let_def)
      qed
    next
      case (Some ct)
      obtain cat type_name where ct: "ct = (cat, type_name)" by (cases ct)
      show ?thesis
      proof (cases "min_size \<le> get_size c")
        case True
        from "3.IH"(5) [OF refl unseen Some ct [symmetric] refl True]
        show ?thesis using unseen Some ct True by (simp add: Let_def)
      next
        case False
        from "3.IH"(6) [OF refl unseen Some ct [symmetric] refl False]
        show ?thesis using unseen Some ct False by (simp add: Let_def)
      qed
    qed
  qed
qed

lemma scan_dir_returns:
  assumes "case lookup_path fs (resolve fs root_dir) of
             None \<Rightarrow> True | Some e \<Rightarrow> is_dir e \<or> \<not> exists e"
  shows "\<exists>out. scan_dir fs root_dir categories max_depth min_size = Inr out"
proof (cases "lookup_path fs (resolve fs root_dir)")
  case None
  then show ?thesis by (simp add: scan_dir_def Let_def)
next
  case (Some e)
  with assms have "is_dir e \<or> \<not> exists e" by simp
  with scan_returns(1) obtain st where
    "scan categories max_depth min_size (length (resolve fs root_dir)) (resolve fs root_dir) e
       \<lparr>seen = {}, matches = []\<rparr> = Inr st"
    by blast
  with Some show ?thesis by (simp add: scan_dir_def Let_def)
qed

end
